theory Spec2Isabelle
  imports Complex_Main "HOL-Library.Char_ord" "HOL-Library.List_Lexorder"
begin

section \<open>Values and faults\<close>

text \<open>
  Python floats are modelled as exact reals: rounding, overflow and underflow are outside
  the model. A computation that leaves the finite numbers (numpy returns inf or nan) or
  that raises is a fault, so that HOL's total division and logarithm never stand in for it.

  A value read from data.csv by \<^verbatim>\<open>pd.read_csv\<close> is a number (a numeric column) or
  text (an object column, for example a strike written with a thousands separator).
  Missing values (NaN) are outside the model.
\<close>

datatype csv_value = Num real | Str string

datatype fault =
    ValueError          \<comment> \<open>\<^verbatim>\<open>float(...)\<close> rejects the text\<close>
  | ZeroDivisionError   \<comment> \<open>Python's \<^verbatim>\<open>S / K\<close> with \<^verbatim>\<open>K == 0\<close>\<close>
  | NonFinite           \<comment> \<open>the float computed is inf or nan\<close>

record csv_row =
  OptionType :: string
  Strike :: csv_value
  OI :: csv_value

section \<open>calculate\_gex.py: gamma and signed GEX\<close>

text \<open>
  \<^verbatim>\<open>float(str(v).replace(',', ''))\<close>. For a number, \<^verbatim>\<open>str\<close> has no comma and
  \<^verbatim>\<open>float\<close> reads it back. For text, Python's built-in \<^verbatim>\<open>float\<close> is the parameter
  \<open>pf\<close>: \<open>None\<close> where it raises ValueError.
\<close>

definition to_float :: "(string \<Rightarrow> real option) \<Rightarrow> csv_value \<Rightarrow> real option" where
  "to_float pf v =
     (case v of
        Num x \<Rightarrow> Some x
      | Str s \<Rightarrow> pf (filter (\<lambda>c. c \<noteq> CHR '','') s))"

text \<open>\<^verbatim>\<open>scipy.stats.norm.pdf\<close>: the standard normal density.\<close>

definition norm_pdf :: "real \<Rightarrow> real" where
  "norm_pdf x = exp (- (x\<^sup>2) / 2) / sqrt (2 * pi)"

text \<open>
  \<^verbatim>\<open>(np.log(S / K) + (r + 0.5 * sigma ** 2) * T) / (sigma * np.sqrt(T))\<close>.
  \<^verbatim>\<open>S / K\<close> divides Python numbers and raises for \<open>K = 0\<close>; \<^verbatim>\<open>np.log\<close> of a
  number that is not positive, \<^verbatim>\<open>np.sqrt\<close> of a negative one and the numpy division
  by zero give inf or nan.
\<close>

definition d1 :: "real \<Rightarrow> real \<Rightarrow> real \<Rightarrow> real \<Rightarrow> real \<Rightarrow> fault + real" where
  "d1 S K r T sigma =
     (if K = 0 then Inl ZeroDivisionError
      else if S / K \<le> 0 then Inl NonFinite
      else if T < 0 then Inl NonFinite
      else if sigma * sqrt T = 0 then Inl NonFinite
      else Inr ((ln (S / K) + (r + 0.5 * sigma\<^sup>2) * T) / (sigma * sqrt T)))"

definition calculate_gamma :: "real \<Rightarrow> real \<Rightarrow> real \<Rightarrow> real \<Rightarrow> real \<Rightarrow> fault + real" where
  "calculate_gamma S K r T sigma =
     (if T \<le> 0 then Inr 0
      else
        (case d1 S K r T sigma of
           Inl e \<Rightarrow> Inl e
         | Inr d1_val \<Rightarrow>
             if S * sigma * sqrt T = 0 then Inl NonFinite
             else Inr (norm_pdf d1_val / (S * sigma * sqrt T))))"

text \<open>
  The strike is converted first, then the open interest, then the zero test, as in the
  source. A gamma that is not finite makes the product nan, which the negation keeps.
\<close>

definition calculate_signed_gex ::
  "(string \<Rightarrow> real option) \<Rightarrow> csv_row \<Rightarrow> real \<Rightarrow> real \<Rightarrow> real \<Rightarrow> real \<Rightarrow> fault + real" where
  "calculate_signed_gex pf row spot iv mult t =
     (case to_float pf (Strike row) of
        None \<Rightarrow> Inl ValueError
      | Some strike \<Rightarrow>
          (case to_float pf (OI row) of
             None \<Rightarrow> Inl ValueError
           | Some oi \<Rightarrow>
               if oi = 0 then Inr 0
               else
                 (case calculate_gamma spot strike 0 t iv of
                    Inl e \<Rightarrow> Inl e
                  | Inr gamma \<Rightarrow>
                      (let gex = gamma * oi * spot * (1 / 100) * mult
                       in Inr (if OptionType row = ''Put'' then - gex else gex)))))"

section \<open>calculate\_gex.py: the aggregation in main\<close>

text \<open>
  \<^verbatim>\<open>df.groupby('Strike')['GEX'].sum().sort_index()\<close> groups on the Strike column as
  \<^verbatim>\<open>read_csv\<close> delivered it, not on the float that \<open>calculate_signed_gex\<close> converts
  it to. pandas orders the group keys in the order of the column's values: numbers by
  size, text by code points (Python's string comparison). A column read from a file
  never mixes the two; for the order to be total, numbers stand before text.
\<close>

instantiation csv_value :: linorder
begin

fun less_eq_csv_value :: "csv_value \<Rightarrow> csv_value \<Rightarrow> bool" where
  "less_eq_csv_value (Num a) (Num b) = (a \<le> b)"
| "less_eq_csv_value (Num a) (Str t) = True"
| "less_eq_csv_value (Str s) (Num b) = False"
| "less_eq_csv_value (Str s) (Str t) = (s \<le> t)"

definition less_csv_value :: "csv_value \<Rightarrow> csv_value \<Rightarrow> bool" where
  "less_csv_value x y = (x \<le> y \<and> \<not> y \<le> x)"

instance
proof
  fix x y z :: csv_value
  show "(x < y) = (x \<le> y \<and> \<not> y \<le> x)"
    by (simp add: less_csv_value_def)
  show "x \<le> x"
    by (cases x) simp_all
  show "x \<le> y \<Longrightarrow> y \<le> z \<Longrightarrow> x \<le> z"
    by (cases x; cases y; cases z) auto
  show "x \<le> y \<Longrightarrow> y \<le> x \<Longrightarrow> x = y"
    by (cases x; cases y) auto
  show "x \<le> y \<or> y \<le> x"
    by (cases x; cases y) auto
qed

end

text \<open>
  The frame handed to the aggregation: one pair (Strike, GEX) per row, the GEX finite.
  The result has one entry per distinct key, in ascending key order, with the sum of the
  group's GEX values taken in row order. Here the sum is the exact one; the sums as
  pandas takes them in double arithmetic follow below.
\<close>

definition gex_by_strike :: "(csv_value \<times> real) list \<Rightarrow> (csv_value \<times> real) list" where
  "gex_by_strike df =
     map (\<lambda>k. (k, sum_list (map snd (filter (\<lambda>row. fst row = k) df))))
       (sort (remdups (map fst df)))"

text \<open>\<^verbatim>\<open>Series.cumsum\<close>: the running sum, left to right.\<close>

fun cumsum_from :: "real \<Rightarrow> real list \<Rightarrow> real list" where
  "cumsum_from acc [] = []"
| "cumsum_from acc (x # xs) = (acc + x) # cumsum_from (acc + x) xs"

definition cumsum :: "real list \<Rightarrow> real list" where
  "cumsum xs = cumsum_from 0 xs"

definition cumulative_gex :: "(csv_value \<times> real) list \<Rightarrow> (csv_value \<times> real) list" where
  "cumulative_gex df =
     (let g = gex_by_strike df in zip (map fst g) (cumsum (map snd g)))"

text \<open>
  The groups themselves, before any arithmetic: one per distinct key, in ascending key
  order, each with the GEX values of its rows in row order.
\<close>

definition strike_groups :: "(csv_value \<times> real) list \<Rightarrow> (csv_value \<times> real list) list" where
  "strike_groups df =
     map (\<lambda>k. (k, map snd (filter (\<lambda>row. fst row = k) df)))
       (sort (remdups (map fst df)))"

subsection \<open>The sums in double arithmetic\<close>









section \<open>parse\_options\_data.py: text of a cell\<close>

text \<open>
  A cell of the sheet is missing (NaN, where \<^verbatim>\<open>pd.notna\<close> is false) or holds a value.
  The parser looks at a value only through \<^verbatim>\<open>str\<close>, so a value is kept as the text
  \<^verbatim>\<open>str\<close> gives for it, and two values are the same when their texts are. Strings are
  sequences of code points below 256.
\<close>

datatype cell = Missing | Val string

definition py_str :: "cell \<Rightarrow> string" where
  "py_str c = (case c of Missing \<Rightarrow> ''nan'' | Val s \<Rightarrow> s)"

text \<open>The characters \<^verbatim>\<open>str.strip()\<close> removes: those for which \<^verbatim>\<open>str.isspace\<close> holds.\<close>

definition is_space :: "char \<Rightarrow> bool" where
  "is_space c =
     (c \<in> set [CHR 0x09, CHR 0x0A, CHR 0x0B, CHR 0x0C, CHR 0x0D, CHR 0x1C, CHR 0x1D,
               CHR 0x1E, CHR 0x1F, CHR 0x20, CHR 0x85, CHR 0xA0])"

definition strip :: "string \<Rightarrow> string" where
  "strip s = rev (dropWhile is_space (rev (dropWhile is_space s)))"

text \<open>
  \<^verbatim>\<open>str.lower()\<close> and \<^verbatim>\<open>str.upper()\<close> on the ASCII letters. Python maps the other
  code points below 256 to characters outside ASCII (or, for one of them, to ``SS''), so
  the comparisons with ``month'', ``strike'', ``at close'' and ``TOTALS'' below come out
  as in Python.
\<close>

definition lower_char :: "char \<Rightarrow> char" where
  "lower_char c =
     (case map_of (zip ''ABCDEFGHIJKLMNOPQRSTUVWXYZ'' ''abcdefghijklmnopqrstuvwxyz'') c of
        None \<Rightarrow> c
      | Some l \<Rightarrow> l)"

definition upper_char :: "char \<Rightarrow> char" where
  "upper_char c =
     (case map_of (zip ''abcdefghijklmnopqrstuvwxyz'' ''ABCDEFGHIJKLMNOPQRSTUVWXYZ'') c of
        None \<Rightarrow> c
      | Some u \<Rightarrow> u)"

definition lower :: "string \<Rightarrow> string" where
  "lower s = map lower_char s"

definition upper :: "string \<Rightarrow> string" where
  "upper s = map upper_char s"

text \<open>\<^verbatim>\<open>sub in s\<close>: \<open>sub\<close> occurs in \<open>s\<close> as a contiguous run.\<close>

definition startswith :: "string \<Rightarrow> string \<Rightarrow> bool" where
  "startswith s sub = (take (length sub) s = sub)"

fun contains :: "string \<Rightarrow> string \<Rightarrow> bool" where
  "contains [] sub = (sub = [])"
| "contains (c # cs) sub = (startswith (c # cs) sub \<or> contains cs sub)"

section \<open>parse\_options\_data.py: the grid and its segments\<close>

text \<open>
  The grid is the frame \<^verbatim>\<open>pd.read_excel(..., header=None)\<close> returns: its index is
  \<open>0, 1, \<dots>\<close>, so the label \<^verbatim>\<open>iterrows\<close> yields is the row's position. A frame with a
  row has a first column: a row is its first cell and the cells after it.
\<close>

type_synonym row = "cell \<times> cell list"

definition cells :: "row \<Rightarrow> cell list" where
  "cells r = fst r # snd r"

text \<open>\<^verbatim>\<open>str(row.iloc[0]).strip() if pd.notna(row.iloc[0]) else ""\<close>\<close>

definition first_col_value :: "row \<Rightarrow> string" where
  "first_col_value r = (case fst r of Missing \<Rightarrow> [] | Val s \<Rightarrow> strip s)"

text \<open>\<^verbatim>\<open>v == "TOTALS" or "No month data" in v\<close>\<close>

definition is_sentinel :: "string \<Rightarrow> bool" where
  "is_sentinel v = (v = ''TOTALS'' \<or> contains v ''No month data'')"

text \<open>
  The loop of \<open>find_table_boundaries\<close> over the rows from position \<open>idx\<close> on, with the
  list built so far and the running start.
\<close>

fun scan_rows :: "row list \<Rightarrow> nat \<Rightarrow> (nat \<times> nat) list \<Rightarrow> nat \<Rightarrow> (nat \<times> nat) list \<times> nat" where
  "scan_rows [] idx table_boundaries table_start = (table_boundaries, table_start)"
| "scan_rows (r # rs) idx table_boundaries table_start =
     (if is_sentinel (first_col_value r)
      then scan_rows rs (Suc idx) (table_boundaries @ [(table_start, idx)]) (idx + 1)
      else scan_rows rs (Suc idx) table_boundaries table_start)"

definition find_table_boundaries :: "row list \<Rightarrow> (nat \<times> nat) list" where
  "find_table_boundaries df =
     (case scan_rows df 0 [] 0 of
        (table_boundaries, table_start) \<Rightarrow>
          if table_start < length df
          then table_boundaries @ [(table_start, length df - 1)]
          else table_boundaries)"

text \<open>The row indices of a segment \<open>(start_row, end_row)\<close>, both ends included.\<close>

definition segment_rows :: "nat \<times> nat \<Rightarrow> nat list" where
  "segment_rows seg = [fst seg ..< Suc (snd seg)]"

section \<open>parse\_options\_data.py: tables\<close>

text \<open>A frame with named columns: the labels, and the rows as lists of cells.\<close>

record table =
  columns :: "cell list"
  rows :: "cell list list"

datatype parse_error =
    IndexError                       \<comment> \<open>\<^verbatim>\<open>iloc\<close> out of bounds\<close>
  | MonthColumnNotFound "cell list"  \<comment> \<open>the ValueError of month discovery, with the labels present\<close>
  | AttributeError                   \<comment> \<open>\<^verbatim>\<open>unique\<close> asked of a frame\<close>

text \<open>
  The inner loop of \<open>find_table_for_month\<close>: the first row from \<open>end_idx\<close> on whose
  first column is a sentinel.
\<close>

fun first_sentinel :: "row list \<Rightarrow> nat \<Rightarrow> nat option" where
  "first_sentinel [] end_idx = None"
| "first_sentinel (r # rs) end_idx =
     (if is_sentinel (first_col_value r) then Some end_idx
      else first_sentinel rs (Suc end_idx))"

text \<open>\<^verbatim>\<open>df.iloc[a:b]\<close> for positions that are not negative.\<close>

definition iloc_slice :: "'a list \<Rightarrow> nat \<Rightarrow> nat \<Rightarrow> 'a list" where
  "iloc_slice df a b = take (b - a) (drop a df)"

text \<open>\<^verbatim>\<open>dropna(how='all')\<close> keeps a row unless every cell of it is missing.\<close>

definition dropna_all :: "cell list list \<Rightarrow> cell list list" where
  "dropna_all rs = filter (\<lambda>r. \<not> list_all (\<lambda>c. c = Missing) r) rs"

text \<open>
  What \<open>find_table_for_month\<close> does at the title row \<open>idx\<close>. The frame has a row there,
  so \<open>len(df) - 1\<close> is not negative, and a sentinel found is at \<open>idx + 2\<close> or later. The
  slice is taken before the header row is read; reading a header row past the end raises.
\<close>

definition extract_at :: "row list \<Rightarrow> nat \<Rightarrow> parse_error + table \<times> bool" where
  "extract_at df idx =
     (let header_row_idx = idx + 1;
          data_start_idx = idx + 2;
          table_end =
            (case first_sentinel (drop data_start_idx df) data_start_idx of
               None \<Rightarrow> length df - 1
             | Some end_idx \<Rightarrow> end_idx - 1);
          data = iloc_slice df data_start_idx (table_end + 1)
      in if header_row_idx < length df
         then Inr (\<lparr>columns = cells (df ! header_row_idx),
                    rows = dropna_all (map cells data)\<rparr>, True)
         else Inl IndexError)"

fun find_title :: "row list \<Rightarrow> row list \<Rightarrow> nat \<Rightarrow> string \<Rightarrow> parse_error + table \<times> bool" where
  "find_title df [] idx search_text = Inr (\<lparr>columns = [], rows = []\<rparr>, False)"
| "find_title df (r # rs) idx search_text =
     (if first_col_value r = search_text then extract_at df idx
      else find_title df rs (Suc idx) search_text)"

definition find_table_for_month :: "row list \<Rightarrow> string \<Rightarrow> string \<Rightarrow> parse_error + table \<times> bool" where
  "find_table_for_month df month table_type =
     find_title df df 0 (month @ '' '' @ table_type)"

text \<open>
  \<^verbatim>\<open>table[keep]\<close>: for each label of \<open>keep\<close> in turn, every column that carries this
  label (pandas selects all the columns of a repeated label).
\<close>

definition select_labels :: "cell list \<Rightarrow> cell list \<Rightarrow> 'a list \<Rightarrow> 'a list" where
  "select_labels keep labels vals =
     concat (map (\<lambda>k. map snd (filter (\<lambda>lv. fst lv = k) (zip labels vals))) keep)"

definition select_columns :: "table \<Rightarrow> cell list \<Rightarrow> table" where
  "select_columns t keep =
     \<lparr>columns = select_labels keep (columns t) (columns t),
      rows = map (select_labels keep (columns t)) (rows t)\<rparr>"

text \<open>\<^verbatim>\<open>str(col).lower().strip()\<close>; a label that is missing reads ``nan''.\<close>

definition header_text :: "cell \<Rightarrow> string" where
  "header_text col = strip (lower (py_str col))"

text \<open>The loops with \<^verbatim>\<open>break\<close>: the first label whose text is \<open>name\<close>, if there is one.\<close>

definition find_column :: "string \<Rightarrow> cell list \<Rightarrow> cell option" where
  "find_column name labels = find (\<lambda>col. header_text col = name) labels"

definition filter_table_columns :: "table \<Rightarrow> table" where
  "filter_table_columns t =
     (let columns_to_keep =
            (case find_column ''strike'' (columns t) of None \<Rightarrow> [] | Some col \<Rightarrow> [col]) @
            (case find_column ''at close'' (columns t) of None \<Rightarrow> [] | Some col \<Rightarrow> [col])
      in if columns_to_keep \<noteq> [] then select_columns t columns_to_keep else t)"

text \<open>\<^verbatim>\<open>unique()\<close>: the values in order of first appearance.\<close>

fun unique_from :: "'a list \<Rightarrow> 'a list \<Rightarrow> 'a list" where
  "unique_from seen [] = []"
| "unique_from seen (x # xs) =
     (if x \<in> set seen then unique_from seen xs else x # unique_from (x # seen) xs)"

text \<open>
  With the label of the month column repeated, \<^verbatim>\<open>first_table[month_col]\<close> is a frame,
  which has no \<^verbatim>\<open>unique\<close>. Values are compared by their text here: a number and a
  text that print alike, which pandas keeps apart, are outside the model.
\<close>

definition get_months_from_first_table :: "table \<Rightarrow> parse_error + string list" where
  "get_months_from_first_table first_table =
     (case find_column ''month'' (columns first_table) of
        None \<Rightarrow> Inl (MonthColumnNotFound (columns first_table))
      | Some month_col \<Rightarrow>
          if length (filter (\<lambda>c. c = month_col) (columns first_table)) \<noteq> 1
          then Inl AttributeError
          else
            (let vals = concat (map (select_labels [month_col] (columns first_table))
                                   (rows first_table));
                 months = unique_from [] (filter (\<lambda>c. c \<noteq> Missing) vals)
             in Inr (map (\<lambda>m. strip (py_str m))
                       (filter (\<lambda>m. upper (strip (py_str m)) \<noteq> ''TOTALS'') months))))"

text \<open>
  The loop of \<open>main\<close> over a projected table: \<^verbatim>\<open>row.iloc[0]\<close> and \<^verbatim>\<open>row.iloc[1]\<close>
  of each row, tagged with the option type.
\<close>

fun collect_rows :: "string \<Rightarrow> cell list list \<Rightarrow> parse_error + (string \<times> cell \<times> cell) list" where
  "collect_rows option_type [] = Inr []"
| "collect_rows option_type (r # rest) =
     (case r of
        strike # oi # others \<Rightarrow>
          (case collect_rows option_type rest of
             Inl e \<Rightarrow> Inl e
           | Inr out \<Rightarrow> Inr ((option_type, strike, oi) # out))
      | _ \<Rightarrow> Inl IndexError)"

section \<open>Properties of the gamma exposure calculator\<close>

subsection \<open>Facts about the density and the gamma factor\<close>

lemma norm_pdf_pos: "0 < norm_pdf x"
  by (simp add: norm_pdf_def)

lemma d1_defined:
  "0 < S \<Longrightarrow> 0 < K \<Longrightarrow> 0 < sigma \<Longrightarrow> 0 < T \<Longrightarrow>
   d1 S K r T sigma = Inr ((ln (S / K) + (r + 0.5 * sigma\<^sup>2) * T) / (sigma * sqrt T))"
proof -
  assume "0 < S" "0 < K" "0 < sigma" "0 < T"
  then have "0 < S / K" and "sigma * sqrt T \<noteq> 0"
    by simp_all
  with \<open>0 < K\<close> \<open>0 < T\<close> show ?thesis
    by (simp add: d1_def)
qed

lemma calculate_gamma_defined:
  "0 < S \<Longrightarrow> 0 < K \<Longrightarrow> 0 < sigma \<Longrightarrow> 0 < T \<Longrightarrow>
   calculate_gamma S K r T sigma =
     Inr (norm_pdf ((ln (S / K) + (r + 0.5 * sigma\<^sup>2) * T) / (sigma * sqrt T))
          / (S * sigma * sqrt T))"
  by (simp add: calculate_gamma_def d1_defined)

lemma calculate_gamma_expired: "T \<le> 0 \<Longrightarrow> calculate_gamma S K r T sigma = Inr 0"
  by (simp add: calculate_gamma_def)

subsection \<open>The formula of the signed GEX\<close>

text \<open>
  Claim C1, as the code has it. For spot, strike, volatility and time all positive and an
  open interest that is not zero, \<open>calculate_signed_gex\<close> returns
  \<open>\<phi>(d1) / (S \<sigma> \<surd>T) \<cdot> OI \<cdot> S \<cdot> 0.01 \<cdot> mult\<close> with \<open>r = 0\<close> for a row that is not a
  Put, and the negation of this value for a Put row; for \<open>T \<le> 0\<close> the gamma factor is 0.
\<close>

theorem calculate_signed_gex_formula:
  "(0 < S \<and> 0 < K \<and> 0 < sigma \<and> 0 < T \<and> oi \<noteq> 0 \<and>
    to_float pf (Strike row) = Some K \<and> to_float pf (OI row) = Some oi \<longrightarrow>
      calculate_signed_gex pf row S sigma mult T =
        Inr ((if OptionType row = ''Put'' then - 1 else 1) *
             (norm_pdf ((ln (S / K) + (0 + 0.5 * sigma\<^sup>2) * T) / (sigma * sqrt T))
                / (S * sigma * sqrt T) * oi * S * 0.01 * mult)))
   \<and> (T' \<le> 0 \<longrightarrow> calculate_gamma S K 0 T' sigma = Inr 0)"
proof (intro conjI impI)
  assume h: "0 < S \<and> 0 < K \<and> 0 < sigma \<and> 0 < T \<and> oi \<noteq> 0 \<and>
    to_float pf (Strike row) = Some K \<and> to_float pf (OI row) = Some oi"
  then have "calculate_gamma S K 0 T sigma =
     Inr (norm_pdf ((ln (S / K) + (0 + 0.5 * sigma\<^sup>2) * T) / (sigma * sqrt T))
          / (S * sigma * sqrt T))"
    by (simp add: calculate_gamma_defined)
  with h show "calculate_signed_gex pf row S sigma mult T =
        Inr ((if OptionType row = ''Put'' then - 1 else 1) *
             (norm_pdf ((ln (S / K) + (0 + 0.5 * sigma\<^sup>2) * T) / (sigma * sqrt T))
                / (S * sigma * sqrt T) * oi * S * 0.01 * mult))"
    by (simp add: calculate_signed_gex_def)
next
  assume "T' \<le> 0"
  then show "calculate_gamma S K 0 T' sigma = Inr 0"
    by (rule calculate_gamma_expired)
qed

text \<open>The formula at the spec's reference point, for a Call row, and the expired case.\<close>

theorem calculate_signed_gex_formula_witness:
  "calculate_signed_gex (\<lambda>s. None) \<lparr>OptionType = ''Call'', Strike = Num 100, OI = Num 10\<rparr> 100 (1 / 5) 1 1 =
     Inr (norm_pdf ((ln (100 / 100) + (0 + 0.5 * (1 / 5)\<^sup>2) * 1) / (1 / 5 * sqrt 1))
            / (100 * (1 / 5) * sqrt 1) * 10 * 100 * 0.01 * 1)
   \<and> calculate_gamma 100 100 0 0 (1 / 5) = Inr 0"
  using calculate_signed_gex_formula
    [of 100 100 "1 / 5" 1 10 "\<lambda>s. None" "\<lparr>OptionType = ''Call'', Strike = Num 100, OI = Num 10\<rparr>" 1 0]
  by (simp add: to_float_def)

text \<open>
  Without the sign the formula fails: on a Put row the result is the negation of a
  positive number.
\<close>

theorem put_row_formula_counterexample:
  "calculate_signed_gex (\<lambda>s. None) \<lparr>OptionType = ''Put'', Strike = Num 100, OI = Num 10\<rparr> 100 (1 / 5) 1 1 \<noteq>
     Inr (norm_pdf ((ln (100 / 100) + (0 + 0.5 * (1 / 5)\<^sup>2) * 1) / (1 / 5 * sqrt 1))
            / (100 * (1 / 5) * sqrt 1) * 10 * 100 * 0.01 * 1)"
proof -
  have "calculate_gamma 100 100 0 1 (1 / 5) =
     Inr (norm_pdf ((ln (100 / 100) + (0 + 0.5 * (1 / 5)\<^sup>2) * 1) / (1 / 5 * sqrt 1))
          / (100 * (1 / 5) * sqrt 1))"
    by (rule calculate_gamma_defined) simp_all
  moreover have "0 < norm_pdf ((ln (100 / 100) + (0 + 0.5 * (1 / 5)\<^sup>2) * 1) / (1 / 5 * sqrt 1))"
    by (rule norm_pdf_pos)
  ultimately show ?thesis
    by (simp add: calculate_signed_gex_def to_float_def)
qed

subsection \<open>Zero open interest\<close>

text \<open>
  Claim C3, as the code has it. A row whose strike converts and whose open interest is 0
  has GEX 0, whatever spot, volatility, multiplier and time are: gamma is not computed.
  The converse does not hold: for \<open>T \<le> 0\<close> the gamma factor is 0, and every row whose
  strike and open interest convert has GEX 0, whatever the open interest is.
\<close>

theorem zero_oi_gives_zero_gex:
  "(to_float pf (Strike row) \<noteq> None \<and> to_float pf (OI row) = Some 0 \<longrightarrow>
      calculate_signed_gex pf row spot iv mult t = Inr 0)
   \<and> (t' \<le> 0 \<and> to_float pf (Strike row) \<noteq> None \<and> to_float pf (OI row) \<noteq> None \<longrightarrow>
      calculate_signed_gex pf row spot iv mult t' = Inr 0)"
proof (intro conjI impI)
  assume "to_float pf (Strike row) \<noteq> None \<and> to_float pf (OI row) = Some 0"
  then show "calculate_signed_gex pf row spot iv mult t = Inr 0"
    by (auto simp: calculate_signed_gex_def)
next
  assume h: "t' \<le> 0 \<and> to_float pf (Strike row) \<noteq> None \<and> to_float pf (OI row) \<noteq> None"
  then obtain strike oi where "to_float pf (Strike row) = Some strike"
    and "to_float pf (OI row) = Some oi"
    by auto
  moreover from h have "calculate_gamma spot strike 0 t' iv = Inr 0"
    by (simp add: calculate_gamma_expired)
  ultimately show "calculate_signed_gex pf row spot iv mult t' = Inr 0"
    by (simp add: calculate_signed_gex_def)
qed

text \<open>
  A row with open interest 0 at the reference point, and a row with open interest 10 at
  \<open>T = 0\<close>.
\<close>

theorem zero_oi_gives_zero_gex_witness:
  "calculate_signed_gex (\<lambda>s. None) \<lparr>OptionType = ''Call'', Strike = Num 100, OI = Num 0\<rparr> 100 (1 / 5) 1 1 = Inr 0
   \<and> calculate_signed_gex (\<lambda>s. None) \<lparr>OptionType = ''Put'', Strike = Num 100, OI = Num 10\<rparr> 100 (1 / 5) 1 0 = Inr 0"
  using zero_oi_gives_zero_gex
      [of "\<lambda>s. None" "\<lparr>OptionType = ''Call'', Strike = Num 100, OI = Num 0\<rparr>" 100 "1 / 5" 1 1 0]
    zero_oi_gives_zero_gex
      [of "\<lambda>s. None" "\<lparr>OptionType = ''Put'', Strike = Num 100, OI = Num 10\<rparr>" 100 "1 / 5" 1 1 0]
  by (simp add: to_float_def)

text \<open>
  At \<open>T = 0\<close> the gamma factor is 0, so the GEX is 0 for an open interest of 10: a GEX
  of 0 does not tell that the open interest is 0.
\<close>

theorem expired_gex_zero_counterexample:
  "\<not> (calculate_signed_gex (\<lambda>s. None)
         \<lparr>OptionType = ''Call'', Strike = Num 100, OI = Num 10\<rparr> 100 (1 / 5) 1 0 = Inr 0
       \<longrightarrow> to_float (\<lambda>s. None) (OI \<lparr>OptionType = ''Call'', Strike = Num 100, OI = Num 10\<rparr>)
             = Some 0)"
  by (simp add: calculate_signed_gex_def to_float_def calculate_gamma_def)

subsection \<open>Sign convention\<close>

text \<open>
  Claim C4. With the same strike, open interest, spot, volatility, multiplier and time,
  the GEX of a Put row is the negation of the GEX of a Call row; where the Call row
  faults, the Put row faults in the same way.
\<close>

theorem put_gex_negates_call_gex:
  "calculate_signed_gex pf (row\<lparr>OptionType := ''Put''\<rparr>) spot iv mult t =
     (case calculate_signed_gex pf (row\<lparr>OptionType := ''Call''\<rparr>) spot iv mult t of
        Inl e \<Rightarrow> Inl e
      | Inr gex \<Rightarrow> Inr (- gex))"
  by (simp add: calculate_signed_gex_def Let_def split: option.split sum.split)

section \<open>Properties of the aggregation\<close>

subsection \<open>Every record in exactly one group\<close>







lemma gex_by_strike_groups:
  "gex_by_strike df = map (\<lambda>g. (fst g, sum_list (snd g))) (strike_groups df)"
  by (simp add: gex_by_strike_def strike_groups_def comp_def)


subsection \<open>The totals in double arithmetic\<close>








subsection \<open>Exact sums, and the order of the keys\<close>

text \<open>
  With every sum exact the totals agree, so the difference above is rounding alone.
\<close>

lemma group_sums_total:
  "finite K \<Longrightarrow> fst ` set df \<subseteq> K \<Longrightarrow>
   (\<Sum>k\<in>K. sum_list (map snd (filter (\<lambda>row. fst row = k) df))) = sum_list (map snd df)"
proof (induction df)
  case Nil
  then show ?case by simp
next
  case (Cons r df)
  have "(\<Sum>k\<in>K. sum_list (map snd (filter (\<lambda>row. fst row = k) (r # df)))) =
        (\<Sum>k\<in>K. (if fst r = k then snd r else 0)
                 + sum_list (map snd (filter (\<lambda>row. fst row = k) df)))"
    by (rule sum.cong) auto
  also have "\<dots> = (\<Sum>k\<in>K. if fst r = k then snd r else 0)
                 + (\<Sum>k\<in>K. sum_list (map snd (filter (\<lambda>row. fst row = k) df)))"
    by (rule sum.distrib)
  also have "(\<Sum>k\<in>K. if fst r = k then snd r else 0) = snd r"
    using Cons.prems by (simp add: sum.delta')
  also have "(\<Sum>k\<in>K. sum_list (map snd (filter (\<lambda>row. fst row = k) df))) = sum_list (map snd df)"
    using Cons by simp
  finally show ?case by simp
qed

lemma gex_by_strike_keys:
  "map fst (gex_by_strike df) = sort (remdups (map fst df))"
  by (simp add: gex_by_strike_def comp_def)

lemma gex_by_strike_sorted: "sorted_wrt (<) (map fst (gex_by_strike df))"
  by (simp add: gex_by_strike_keys strict_sorted_iff)

lemma numeric_keys_order: "Num a < Num b \<longleftrightarrow> a < b"
  by (auto simp: less_csv_value_def)

lemma text_keys_order: "Str s < Str t \<longleftrightarrow> s < t"
  by (auto simp: less_csv_value_def)

lemma exact_group_sums_total:
  "sum_list (map snd (gex_by_strike df)) = sum_list (map snd df)"
proof -
  let ?ks = "sort (remdups (map fst df))"
  let ?g = "\<lambda>k. sum_list (map snd (filter (\<lambda>row. fst row = k) df))"
  have "sum_list (map snd (gex_by_strike df)) = sum_list (map ?g ?ks)"
    by (simp add: gex_by_strike_def comp_def)
  also have "\<dots> = (\<Sum>k\<in>set ?ks. ?g k)"
    by (rule sum_list_distinct_conv_sum_set) simp
  also have "\<dots> = sum_list (map snd df)"
    by (rule group_sums_total) simp_all
  finally show ?thesis .
qed

subsection \<open>Order of the groups and the cumulative series\<close>

text \<open>
  The cumulative series is the prefix sum of the net GEX in the order of the output, and
  the keys of the output ascend in the order of the Strike column's values.
\<close>

lemma cumsum_from_length: "length (cumsum_from acc xs) = length xs"
  by (induction xs arbitrary: acc) simp_all

lemma cumsum_from_nth:
  "i < length xs \<Longrightarrow> cumsum_from acc xs ! i = acc + sum_list (take (Suc i) xs)"
proof (induction xs arbitrary: acc i)
  case Nil
  then show ?case by simp
next
  case (Cons x xs)
  show ?case
  proof (cases i)
    case 0
    then show ?thesis by simp
  next
    case (Suc j)
    with Cons.prems have "j < length xs" by simp
    from Cons.IH [OF this, of "acc + x"] Suc show ?thesis by simp
  qed
qed

lemma cumsum_prefix_sums:
  "length (cumsum xs) = length xs \<and>
   (xs \<noteq> [] \<longrightarrow> cumsum xs ! 0 = xs ! 0) \<and>
   (\<forall>i. 0 < i \<and> i < length xs \<longrightarrow> cumsum xs ! i = cumsum xs ! (i - 1) + xs ! i)"
proof (intro conjI impI allI)
  show "length (cumsum xs) = length xs"
    by (simp add: cumsum_def cumsum_from_length)
next
  assume "xs \<noteq> []"
  then show "cumsum xs ! 0 = xs ! 0"
    by (cases xs) (simp_all add: cumsum_def)
next
  fix i assume i: "0 < i \<and> i < length xs"
  then obtain j where j: "i = Suc j" by (cases i) auto
  with i have "sum_list (take (Suc i) xs) = sum_list (take i xs) + xs ! i"
    by (simp add: take_Suc_conv_app_nth)
  with i j show "cumsum xs ! i = cumsum xs ! (i - 1) + xs ! i"
    by (simp add: cumsum_def cumsum_from_nth)
qed

text \<open>
  Claim C8 at a frame whose Strike column is text with thousands separators, which
  \<open>calculate_signed_gex\<close> converts to 9000 and 10000 (\<open>float\<close> is handed the text
  without the commas). The groups come in text order, ``10,000'' before ``9,000'', so the
  strikes descend and the cumulative series runs from the larger strike to the smaller.
\<close>

theorem text_strikes_sorted_as_text:
  "gex_by_strike [(Str ''9,000'', 1), (Str ''10,000'', 2)] =
     [(Str ''10,000'', 2), (Str ''9,000'', 1)]
   \<and> cumulative_gex [(Str ''9,000'', 1), (Str ''10,000'', 2)] =
     [(Str ''10,000'', 2), (Str ''9,000'', 3)]
   \<and> to_float pf (Str ''9,000'') = pf ''9000''
   \<and> to_float pf (Str ''10,000'') = pf ''10000''"
  by (simp add: gex_by_strike_def cumulative_gex_def cumsum_def to_float_def)

section \<open>Properties of the table segmenter\<close>

subsection \<open>Substring test\<close>

lemma startswith_iff: "startswith s sub \<longleftrightarrow> (\<exists>q. s = sub @ q)"
proof
  assume "startswith s sub"
  then have "s = sub @ drop (length sub) s"
    by (metis append_take_drop_id startswith_def)
  then show "\<exists>q. s = sub @ q" ..
next
  assume "\<exists>q. s = sub @ q"
  then show "startswith s sub"
    by (auto simp: startswith_def)
qed

lemma contains_iff: "contains s sub \<longleftrightarrow> (\<exists>p q. s = p @ sub @ q)"
proof (induction s)
  case Nil
  then show ?case by auto
next
  case (Cons c cs)
  have "(\<exists>p q. c # cs = p @ sub @ q) \<longleftrightarrow>
        (\<exists>q. c # cs = sub @ q) \<or> (\<exists>p q. cs = p @ sub @ q)"
  proof
    assume "\<exists>p q. c # cs = p @ sub @ q"
    then obtain p q where pq: "c # cs = p @ sub @ q" by blast
    show "(\<exists>q. c # cs = sub @ q) \<or> (\<exists>p q. cs = p @ sub @ q)"
    proof (cases p)
      case Nil
      with pq show ?thesis by auto
    next
      case (Cons a p')
      with pq have "cs = p' @ sub @ q" by simp
      then show ?thesis by blast
    qed
  next
    assume "(\<exists>q. c # cs = sub @ q) \<or> (\<exists>p q. cs = p @ sub @ q)"
    then show "\<exists>p q. c # cs = p @ sub @ q"
    proof
      assume "\<exists>q. c # cs = sub @ q"
      then obtain q where "c # cs = [] @ sub @ q" by auto
      then show ?thesis by blast
    next
      assume "\<exists>p q. cs = p @ sub @ q"
      then obtain p q where "c # cs = (c # p) @ sub @ q" by auto
      then show ?thesis by blast
    qed
  qed
  with Cons show ?case
    by (simp add: startswith_iff)
qed

subsection \<open>Segments partition the rows\<close>

text \<open>
  The invariant of the loop: the segments closed so far are not empty and, laid end to
  end, are the rows before the running start, which is never ahead of the row cursor.
\<close>

lemma segment_rows_append:
  "ts \<le> idx \<Longrightarrow> [0..<ts] @ segment_rows (ts, idx) = [0..<Suc idx]"
  by (metis fst_conv le_SucI le_add_diff_inverse segment_rows_def snd_conv upt_add_eq_append zero_le)

lemma scan_rows_partition:
  "concat (map segment_rows tb) = [0..<ts] \<Longrightarrow> ts \<le> idx \<Longrightarrow>
   \<forall>seg\<in>set tb. fst seg \<le> snd seg \<Longrightarrow>
   scan_rows rs idx tb ts = (tb', ts') \<Longrightarrow>
   concat (map segment_rows tb') = [0..<ts'] \<and> ts' \<le> idx + length rs \<and>
   (\<forall>seg\<in>set tb'. fst seg \<le> snd seg)"
proof (induction rs arbitrary: idx tb ts)
  case Nil
  then show ?case by simp
next
  case (Cons r rs)
  show ?case
  proof (cases "is_sentinel (first_col_value r)")
    case True
    with Cons.prems have run: "scan_rows rs (Suc idx) (tb @ [(ts, idx)]) (Suc idx) = (tb', ts')"
      by simp
    have cover: "concat (map segment_rows (tb @ [(ts, idx)])) = [0..<Suc idx]"
      using Cons.prems(1,2) by (simp add: segment_rows_append)
    have nonempty: "\<forall>seg\<in>set (tb @ [(ts, idx)]). fst seg \<le> snd seg"
      using Cons.prems(2,3) by auto
    from Cons.IH [OF cover _ nonempty run] show ?thesis by simp
  next
    case False
    with Cons.prems have run: "scan_rows rs (Suc idx) tb ts = (tb', ts')"
      by simp
    from Cons.prems(2) have "ts \<le> Suc idx" by simp
    from Cons.IH [OF Cons.prems(1) this Cons.prems(3) run] show ?thesis by simp
  qed
qed

text \<open>
  Claim C2. For every grid, the empty one included, the row indices of the segments
  returned by \<open>find_table_boundaries\<close>, taken segment after segment, are exactly
  \<open>0, 1, \<dots>, len - 1\<close>: the segments are in order, each starts where the one before
  ended, none overlaps another, and every row lies in exactly one. No segment is empty.
\<close>

theorem segments_partition_rows:
  "concat (map segment_rows (find_table_boundaries df)) = [0..<length df] \<and>
   (\<forall>seg\<in>set (find_table_boundaries df). fst seg \<le> snd seg)"
proof -
  obtain tb ts where run: "scan_rows df 0 [] 0 = (tb, ts)"
    by (cases "scan_rows df 0 [] 0")
  have inv: "concat (map segment_rows tb) = [0..<ts] \<and> ts \<le> 0 + length df \<and>
             (\<forall>seg\<in>set tb. fst seg \<le> snd seg)"
    by (rule scan_rows_partition [OF _ _ _ run]) simp_all
  show ?thesis
  proof (cases "ts < length df")
    case True
    then have "ts \<le> length df - 1" and "Suc (length df - 1) = length df"
      by simp_all
    then have "[0..<ts] @ segment_rows (ts, length df - 1) = [0..<length df]"
      using segment_rows_append [of ts "length df - 1"] by (simp del: upt_Suc)
    with True inv run show ?thesis
      by (simp add: find_table_boundaries_def)
  next
    case False
    with inv have "ts = length df" by simp
    with inv run show ?thesis
      by (simp add: find_table_boundaries_def)
  qed
qed

text \<open>A grid of five rows with two sentinels, and the empty grid.\<close>

theorem segments_partition_rows_witness:
  "concat (map segment_rows (find_table_boundaries
      [(Val ''Month'', []), (Val '' TOTALS '', []), (Val ''totals'', []),
       (Val ''No month data for this option type'', []), (Missing, [])])) = [0..<5]
   \<and> find_table_boundaries
      [(Val ''Month'', []), (Val '' TOTALS '', []), (Val ''totals'', []),
       (Val ''No month data for this option type'', []), (Missing, [])] = [(0, 1), (2, 3), (4, 4)]
   \<and> find_table_boundaries [] = []"
  using segments_partition_rows
    [of "[(Val ''Month'', []), (Val '' TOTALS '', []), (Val ''totals'', []),
          (Val ''No month data for this option type'', []), (Missing, [])]"]
  by (simp add: find_table_boundaries_def first_col_value_def strip_def is_space_def
        is_sentinel_def startswith_def eval_nat_numeral)

subsection \<open>Which rows close a segment\<close>

lemma scan_rows_ends:
  "snd ` set (fst (scan_rows rs idx tb ts)) =
     snd ` set tb \<union> {idx + j | j. j < length rs \<and> is_sentinel (first_col_value (rs ! j))}"
proof (induction rs arbitrary: idx tb ts)
  case Nil
  then show ?case by simp
next
  case (Cons r rs)
  have split: "{idx + j | j. j < length (r # rs) \<and> is_sentinel (first_col_value ((r # rs) ! j))} =
     (if is_sentinel (first_col_value r) then {idx} else {}) \<union>
     {Suc idx + j | j. j < length rs \<and> is_sentinel (first_col_value (rs ! j))}"
    (is "?L = ?R")
  proof
    show "?L \<subseteq> ?R"
    proof
      fix x assume "x \<in> ?L"
      then obtain j where j: "x = idx + j" "j < length (r # rs)"
        "is_sentinel (first_col_value ((r # rs) ! j))" by blast
      show "x \<in> ?R"
      proof (cases j)
        case 0
        with j show ?thesis by simp
      next
        case (Suc k)
        with j have "x = Suc idx + k \<and> k < length rs \<and> is_sentinel (first_col_value (rs ! k))"
          by simp
        then show ?thesis by blast
      qed
    qed
  next
    show "?R \<subseteq> ?L"
    proof
      fix x assume "x \<in> ?R"
      then consider "is_sentinel (first_col_value r)" "x = idx"
        | k where "x = Suc idx + k" "k < length rs" "is_sentinel (first_col_value (rs ! k))"
        by (auto split: if_splits)
      then show "x \<in> ?L"
      proof cases
        case 1
        then have "x = idx + 0 \<and> 0 < length (r # rs) \<and> is_sentinel (first_col_value ((r # rs) ! 0))"
          by simp
        then show ?thesis by blast
      next
        case 2
        then have "x = idx + Suc k \<and> Suc k < length (r # rs) \<and>
                   is_sentinel (first_col_value ((r # rs) ! Suc k))"
          by simp
        then show ?thesis by blast
      qed
    qed
  qed
  show ?case
    unfolding split using Cons.IH by (auto simp del: One_nat_def)
qed

text \<open>
  Claim C5. The loop closes a segment at row \<open>i\<close> exactly when the trimmed text of the
  row's first column equals ``TOTALS'' or has ``No month data'' as a substring; the same
  holds of the segments returned, for every row but the last (where the trailing segment
  ends whatever the row holds). A first column ``totals'' closes no segment.
\<close>

theorem sentinel_rows_close_segments:
  "(i < length df \<longrightarrow>
      ((\<exists>s. (s, i) \<in> set (fst (scan_rows df 0 [] 0))) \<longleftrightarrow>
       (first_col_value (df ! i) = ''TOTALS'' \<or>
        (\<exists>p q. first_col_value (df ! i) = p @ ''No month data'' @ q))))
   \<and> (Suc i < length df \<longrightarrow>
      ((\<exists>s. (s, i) \<in> set (find_table_boundaries df)) \<longleftrightarrow>
       (first_col_value (df ! i) = ''TOTALS'' \<or>
        (\<exists>p q. first_col_value (df ! i) = p @ ''No month data'' @ q))))
   \<and> (i < length df \<and> first_col_value (df ! i) = ''totals'' \<longrightarrow>
      \<not> (\<exists>s. (s, i) \<in> set (fst (scan_rows df 0 [] 0))))"
proof -
  let ?closed = "fst (scan_rows df 0 [] 0)"
  let ?mark = "\<lambda>i. first_col_value (df ! i) = ''TOTALS'' \<or>
        (\<exists>p q. first_col_value (df ! i) = p @ ''No month data'' @ q)"
  have ends: "snd ` set ?closed = {j. j < length df \<and> is_sentinel (first_col_value (df ! j))}"
    using scan_rows_ends [of df 0 "[]" 0] by simp
  have mem: "(\<exists>s. (s, j) \<in> set ?closed) \<longleftrightarrow> j \<in> snd ` set ?closed" for j
    by force
  have loop: "(\<exists>s. (s, j) \<in> set ?closed) \<longleftrightarrow> ?mark j" if "j < length df" for j
    using that by (simp add: mem ends is_sentinel_def contains_iff)
  have final: "(\<exists>s. (s, i) \<in> set (find_table_boundaries df)) \<longleftrightarrow> (\<exists>s. (s, i) \<in> set ?closed)"
    if "Suc i < length df"
  proof -
    obtain tb ts where run: "scan_rows df 0 [] 0 = (tb, ts)"
      by (cases "scan_rows df 0 [] 0")
    from that have "i \<noteq> length df - 1" by simp
    with run show ?thesis
      by (auto simp: find_table_boundaries_def)
  qed
  have lower: "\<not> is_sentinel ''totals''"
    by (simp add: is_sentinel_def startswith_def)
  have c1: "i < length df \<longrightarrow> ((\<exists>s. (s, i) \<in> set ?closed) \<longleftrightarrow> ?mark i)"
    using loop by blast
  have c2: "Suc i < length df \<longrightarrow>
      ((\<exists>s. (s, i) \<in> set (find_table_boundaries df)) \<longleftrightarrow> ?mark i)"
    using loop [of i] final by simp
  have c3: "i < length df \<and> first_col_value (df ! i) = ''totals'' \<longrightarrow>
      \<not> (\<exists>s. (s, i) \<in> set ?closed)"
    using lower by (simp add: mem ends)
  from c1 c2 c3 show ?thesis by blast
qed

text \<open>Row 1 holds ``TOTALS'' between blanks and closes a segment; row 2 holds ``totals''.\<close>

theorem sentinel_rows_close_segments_witness:
  "first_col_value ([(Val ''Month'', []), (Val '' TOTALS '', []), (Val ''totals'', []),
       (Val ''No month data for this option type'', []), (Missing, [])] ! 1) = ''TOTALS''
   \<and> (\<exists>s. (s, 1) \<in> set (find_table_boundaries
      [(Val ''Month'', []), (Val '' TOTALS '', []), (Val ''totals'', []),
       (Val ''No month data for this option type'', []), (Missing, [])]))
   \<and> first_col_value ([(Val ''Month'', []), (Val '' TOTALS '', []), (Val ''totals'', []),
       (Val ''No month data for this option type'', []), (Missing, [])] ! 2) = ''totals''
   \<and> \<not> (\<exists>s. (s, 2) \<in> set (fst (scan_rows
      [(Val ''Month'', []), (Val '' TOTALS '', []), (Val ''totals'', []),
       (Val ''No month data for this option type'', []), (Missing, [])] 0 [] 0)))"
  using sentinel_rows_close_segments
    [of 1 "[(Val ''Month'', []), (Val '' TOTALS '', []), (Val ''totals'', []),
          (Val ''No month data for this option type'', []), (Missing, [])]"]
    sentinel_rows_close_segments
    [of 2 "[(Val ''Month'', []), (Val '' TOTALS '', []), (Val ''totals'', []),
          (Val ''No month data for this option type'', []), (Missing, [])]"]
  by (simp add: first_col_value_def strip_def is_space_def)

section \<open>Properties of the month table locator\<close>

subsection \<open>The two scans\<close>

lemma iloc_slice_rows:
  "a \<le> b \<Longrightarrow> b \<le> length df \<Longrightarrow> iloc_slice df a b = map ((!) df) [a..<b]"
  by (rule nth_equalityI) (simp_all add: iloc_slice_def)

lemma first_sentinel_None:
  "first_sentinel rs k = None \<longleftrightarrow> (\<forall>j<length rs. \<not> is_sentinel (first_col_value (rs ! j)))"
proof (induction rs arbitrary: k)
  case Nil
  then show ?case by simp
next
  case (Cons r rs)
  then show ?case
    by (auto simp: less_Suc_eq_0_disj)
qed

lemma first_sentinel_Some:
  "first_sentinel rs k = Some e \<Longrightarrow>
   k \<le> e \<and> e < k + length rs \<and> is_sentinel (first_col_value (rs ! (e - k))) \<and>
   (\<forall>j<e - k. \<not> is_sentinel (first_col_value (rs ! j)))"
proof (induction rs arbitrary: k)
  case Nil
  then show ?case by simp
next
  case (Cons r rs)
  show ?case
  proof (cases "is_sentinel (first_col_value r)")
    case True
    with Cons.prems show ?thesis by simp
  next
    case False
    with Cons.prems have "first_sentinel rs (Suc k) = Some e" by simp
    from Cons.IH [OF this] have ih: "Suc k \<le> e" "e < Suc k + length rs"
      "is_sentinel (first_col_value (rs ! (e - Suc k)))"
      "\<forall>j<e - Suc k. \<not> is_sentinel (first_col_value (rs ! j))"
      by simp_all
    from ih(1) have ek: "e - k = Suc (e - Suc k)" by simp
    have "\<forall>j<e - k. \<not> is_sentinel (first_col_value ((r # rs) ! j))"
    proof (intro allI impI)
      fix j assume "j < e - k"
      with ek ih(4) False show "\<not> is_sentinel (first_col_value ((r # rs) ! j))"
        by (cases j) simp_all
    qed
    with ih ek show ?thesis by simp
  qed
qed

lemma find_title_none:
  "\<forall>r\<in>set rs. first_col_value r \<noteq> search_text \<Longrightarrow>
   find_title df rs idx search_text = Inr (\<lparr>columns = [], rows = []\<rparr>, False)"
  by (induction rs arbitrary: idx) simp_all

lemma find_title_first:
  "j < length rs \<Longrightarrow> first_col_value (rs ! j) = search_text \<Longrightarrow>
   \<forall>k<j. first_col_value (rs ! k) \<noteq> search_text \<Longrightarrow>
   find_title df rs idx search_text = extract_at df (idx + j)"
proof (induction rs arbitrary: idx j)
  case Nil
  then show ?case by simp
next
  case (Cons r rs)
  show ?case
  proof (cases j)
    case 0
    with Cons.prems show ?thesis by simp
  next
    case (Suc i)
    with Cons.prems have head: "first_col_value r \<noteq> search_text"
      by auto
    from Suc Cons.prems have "i < length rs" "first_col_value (rs ! i) = search_text"
      "\<forall>k<i. first_col_value (rs ! k) \<noteq> search_text"
      by auto
    from Cons.IH [OF this] head Suc show ?thesis by simp
  qed
qed

lemma extract_at_rows:
  assumes hdr: "Suc r < length df"
  shows "\<exists>e. r + 2 \<le> e \<and> e \<le> length df \<and>
           (\<forall>i. r + 2 \<le> i \<and> i < e \<longrightarrow> \<not> is_sentinel (first_col_value (df ! i))) \<and>
           (e < length df \<longrightarrow> is_sentinel (first_col_value (df ! e))) \<and>
           extract_at df r =
             Inr (\<lparr>columns = cells (df ! Suc r),
                   rows = dropna_all (map cells (map ((!) df) [r + 2..<e]))\<rparr>, True)"
proof (cases "first_sentinel (drop (r + 2) df) (r + 2)")
  case None
  then have clear: "\<forall>j<length df - (r + 2). \<not> is_sentinel (first_col_value (df ! (r + 2 + j)))"
    by (simp add: first_sentinel_None)
  have free: "\<forall>i. r + 2 \<le> i \<and> i < length df \<longrightarrow> \<not> is_sentinel (first_col_value (df ! i))"
  proof (intro allI impI)
    fix i assume i: "r + 2 \<le> i \<and> i < length df"
    define j where "j = i - (r + 2)"
    with i have j: "j < length df - (r + 2)" "i = r + 2 + j" by linarith+
    from clear j(1) have "\<not> is_sentinel (first_col_value (df ! (r + 2 + j)))" by blast
    then show "\<not> is_sentinel (first_col_value (df ! i))" unfolding j(2) .
  qed
  from hdr have len: "length df - 1 + 1 = length df" "r + 2 \<le> length df" by simp_all
  with None hdr have "extract_at df r =
      Inr (\<lparr>columns = cells (df ! Suc r),
            rows = dropna_all (map cells (map ((!) df) [r + 2..<length df]))\<rparr>, True)"
    by (simp add: extract_at_def Let_def iloc_slice_rows)
  with free len(2) show ?thesis by blast
next
  case (Some e)
  from first_sentinel_Some [OF this]
  have raw: "r + 2 \<le> e" "e < r + 2 + length (drop (r + 2) df)"
    "is_sentinel (first_col_value (drop (r + 2) df ! (e - (r + 2))))"
    and before: "\<forall>j<e - (r + 2). \<not> is_sentinel (first_col_value (drop (r + 2) df ! j))"
    by blast+
  from hdr have start: "r + 2 \<le> length df" by simp
  then have "length (drop (r + 2) df) = length df - (r + 2)" by simp
  with raw(2) start have bound: "e < length df" by linarith
  have "drop (r + 2) df ! (e - (r + 2)) = df ! (r + 2 + (e - (r + 2)))"
    using start by (rule nth_drop)
  also from raw(1) have "r + 2 + (e - (r + 2)) = e" by linarith
  finally have "drop (r + 2) df ! (e - (r + 2)) = df ! e" .
  with raw(3) have hit: "is_sentinel (first_col_value (df ! e))" by simp
  note e = raw(1) bound hit
  have free: "\<forall>i. r + 2 \<le> i \<and> i < e \<longrightarrow> \<not> is_sentinel (first_col_value (df ! i))"
  proof (intro allI impI)
    fix i assume i: "r + 2 \<le> i \<and> i < e"
    define j where "j = i - (r + 2)"
    with i have j: "j < e - (r + 2)" "i = r + 2 + j" by linarith+
    from before j(1) have "\<not> is_sentinel (first_col_value (drop (r + 2) df ! j))" by blast
    moreover from start have "drop (r + 2) df ! j = df ! (r + 2 + j)" by (rule nth_drop)
    ultimately show "\<not> is_sentinel (first_col_value (df ! i))" unfolding j(2) by simp
  qed
  from e have "e - 1 + 1 = e" by simp
  with Some hdr e have "extract_at df r =
      Inr (\<lparr>columns = cells (df ! Suc r),
            rows = dropna_all (map cells (map ((!) df) [r + 2..<e]))\<rparr>, True)"
    by (simp add: extract_at_def Let_def iloc_slice_rows)
  moreover from e have "e \<le> length df" by simp
  ultimately show ?thesis using free e(1,3) by blast
qed

subsection \<open>What the locator returns\<close>

text \<open>
  Claim C6, as the code has it. If no row's trimmed first column equals the title
  ``month side'', the locator returns not-found with an empty table. If \<open>r\<close> is the first
  row that does and row \<open>r + 1\<close> exists, the locator takes row \<open>r + 1\<close> as the header
  row and returns the rows \<open>r + 2, \<dots>, e - 1\<close> without those whose cells are all missing,
  where \<open>e\<close> is the first row from \<open>r + 2\<close> on whose first column is a sentinel, or
  the number of rows if there is none.
\<close>

theorem find_table_for_month_locates:
  "((\<forall>row\<in>set df'. first_col_value row \<noteq> month' @ '' '' @ side') \<longrightarrow>
      find_table_for_month df' month' side' = Inr (\<lparr>columns = [], rows = []\<rparr>, False))
   \<and> (Suc r < length df \<and> first_col_value (df ! r) = month @ '' '' @ side \<and>
       (\<forall>j<r. first_col_value (df ! j) \<noteq> month @ '' '' @ side) \<longrightarrow>
      (\<exists>e. r + 2 \<le> e \<and> e \<le> length df \<and>
           (\<forall>i. r + 2 \<le> i \<and> i < e \<longrightarrow> \<not> is_sentinel (first_col_value (df ! i))) \<and>
           (e < length df \<longrightarrow> is_sentinel (first_col_value (df ! e))) \<and>
           find_table_for_month df month side =
             Inr (\<lparr>columns = cells (df ! Suc r),
                   rows = dropna_all (map cells (map ((!) df) [r + 2..<e]))\<rparr>, True)))"
proof (intro conjI impI)
  assume "\<forall>row\<in>set df'. first_col_value row \<noteq> month' @ '' '' @ side'"
  then show "find_table_for_month df' month' side' = Inr (\<lparr>columns = [], rows = []\<rparr>, False)"
    by (simp add: find_table_for_month_def find_title_none)
next
  assume h: "Suc r < length df \<and> first_col_value (df ! r) = month @ '' '' @ side \<and>
       (\<forall>j<r. first_col_value (df ! j) \<noteq> month @ '' '' @ side)"
  then have "find_title df df 0 (month @ '' '' @ side) = extract_at df (0 + r)"
    by (intro find_title_first) simp_all
  then have "find_table_for_month df month side = extract_at df r"
    by (simp add: find_table_for_month_def)
  with extract_at_rows [of r df] h
  show "\<exists>e. r + 2 \<le> e \<and> e \<le> length df \<and>
           (\<forall>i. r + 2 \<le> i \<and> i < e \<longrightarrow> \<not> is_sentinel (first_col_value (df ! i))) \<and>
           (e < length df \<longrightarrow> is_sentinel (first_col_value (df ! e))) \<and>
           find_table_for_month df month side =
             Inr (\<lparr>columns = cells (df ! Suc r),
                   rows = dropna_all (map cells (map ((!) df) [r + 2..<e]))\<rparr>, True)"
    by simp
qed

text \<open>
  A grid with the Calls table of one month (one data row, an empty row, the totals) and
  no Puts table.
\<close>

theorem find_table_for_month_locates_witness:
  "find_table_for_month
     [(Val ''MAR 26 Calls'', [Missing]), (Val ''Strike'', [Val ''At Close'']),
      (Val ''100'', [Val ''10'']), (Missing, [Missing]), (Val ''TOTALS'', [Val ''10'']),
      (Val ''JUN 26 Calls'', [Missing])] ''MAR 26'' ''Calls'' =
     Inr (\<lparr>columns = [Val ''Strike'', Val ''At Close''], rows = [[Val ''100'', Val ''10'']]\<rparr>, True)
   \<and> find_table_for_month
     [(Val ''MAR 26 Calls'', [Missing]), (Val ''Strike'', [Val ''At Close'']),
      (Val ''100'', [Val ''10'']), (Missing, [Missing]), (Val ''TOTALS'', [Val ''10'']),
      (Val ''JUN 26 Calls'', [Missing])] ''MAR 26'' ''Puts'' =
     Inr (\<lparr>columns = [], rows = []\<rparr>, False)"
  using find_table_for_month_locates
    [where df = "[(Val ''MAR 26 Calls'', [Missing]), (Val ''Strike'', [Val ''At Close'']),
        (Val ''100'', [Val ''10'']), (Missing, [Missing]), (Val ''TOTALS'', [Val ''10'']),
        (Val ''JUN 26 Calls'', [Missing])]"
      and r = 0 and month = "''MAR 26''" and side = "''Calls''"
      and df' = "[(Val ''MAR 26 Calls'', [Missing]), (Val ''Strike'', [Val ''At Close'']),
        (Val ''100'', [Val ''10'']), (Missing, [Missing]), (Val ''TOTALS'', [Val ''10'']),
        (Val ''JUN 26 Calls'', [Missing])]"
      and month' = "''MAR 26''" and side' = "''Puts''"]
  by (simp add: find_table_for_month_def first_col_value_def strip_def is_space_def
        extract_at_def is_sentinel_def startswith_def iloc_slice_def dropna_all_def cells_def)

text \<open>
  A title in the last row of the grid has no header row after it: the locator raises
  instead of returning a table.
\<close>

theorem title_in_last_row_counterexample:
  "find_table_for_month [(Val ''TOTALS'', [Missing]), (Val ''MAR 26 Calls'', [Missing])]
     ''MAR 26'' ''Calls'' = Inl IndexError"
  by (simp add: find_table_for_month_def first_col_value_def strip_def is_space_def
        extract_at_def)

section \<open>Properties of month discovery and the column projector\<close>

subsection \<open>Finding and selecting labels\<close>

lemma find_column_None:
  "find_column name labels = None \<longleftrightarrow> (\<forall>col\<in>set labels. header_text col \<noteq> name)"
  by (auto simp: find_column_def find_None_iff)

lemma find_column_Some:
  "find_column name labels = Some c \<Longrightarrow> c \<in> set labels \<and> header_text c = name"
  by (auto simp: find_column_def find_Some_iff)

lemma select_labels_single:
  "select_labels [c] labels labels = filter (\<lambda>l. l = c) labels"
proof -
  have "map snd (filter (\<lambda>lv. fst lv = c) (zip xs xs)) = filter (\<lambda>l. l = c) xs" for xs :: "cell list"
    by (induction xs) simp_all
  then show ?thesis
    by (simp add: select_labels_def)
qed

lemma select_labels_labels:
  "set (select_labels keep labels labels) \<subseteq> set keep"
proof -
  have "set (map snd (filter (\<lambda>lv. fst lv = k) (zip xs xs))) \<subseteq> {k}" for k and xs :: "cell list"
    by (induction xs) auto
  then show ?thesis
    by (fastforce simp: select_labels_def)
qed

lemma filter_eq_single:
  "distinct xs \<Longrightarrow> c \<in> set xs \<Longrightarrow> filter (\<lambda>l. l = c) xs = [c]"
proof (induction xs)
  case Nil
  then show ?case by simp
next
  case (Cons x xs)
  show ?case
  proof (cases "x = c")
    case True
    with Cons.prems have "c \<notin> set xs" by simp
    then have "filter (\<lambda>l. l = c) xs = []"
      by (auto simp: filter_empty_conv)
    with True show ?thesis by simp
  next
    case False
    with Cons show ?thesis by simp
  qed
qed

lemma collect_rows_two_cells:
  "\<forall>r\<in>set rs. 2 \<le> length r \<Longrightarrow>
   collect_rows option_type rs = Inr (map (\<lambda>r. (option_type, r ! 0, r ! 1)) rs)"
proof (induction rs)
  case Nil
  then show ?case by simp
next
  case (Cons r rs)
  then obtain strike oi others where "r = strike # oi # others"
    by (cases r; cases "tl r") auto
  with Cons show ?case by simp
qed

subsection \<open>A required column that is missing\<close>

text \<open>
  Claim C9, as the code has it. Month discovery on a table none of whose labels reads
  ``month'' raises the error that carries the labels present. In column projection, when
  neither ``strike'' nor ``at close'' is among the labels, nothing is raised: the
  projector returns the table as it is, and when every row has at least two cells the
  loop of \<open>main\<close> completes, reading the first two cells of each row of that table.
\<close>

theorem missing_column_handling:
  "((\<forall>col\<in>set (columns t). header_text col \<noteq> ''month'') \<longrightarrow>
      get_months_from_first_table t = Inl (MonthColumnNotFound (columns t)))
   \<and> ((\<forall>col\<in>set (columns t'). header_text col \<noteq> ''strike'' \<and> header_text col \<noteq> ''at close'') \<longrightarrow>
      filter_table_columns t' = t')
   \<and> ((\<forall>col\<in>set (columns t'). header_text col \<noteq> ''strike'' \<and> header_text col \<noteq> ''at close'') \<and>
       (\<forall>r\<in>set (rows t'). 2 \<le> length r) \<longrightarrow>
      collect_rows option_type (rows (filter_table_columns t')) =
        Inr (map (\<lambda>r. (option_type, r ! 0, r ! 1)) (rows t')))"
proof -
  have neither: "filter_table_columns t' = t'"
    if "\<forall>col\<in>set (columns t'). header_text col \<noteq> ''strike'' \<and> header_text col \<noteq> ''at close''"
  proof -
    from that have "find_column ''strike'' (columns t') = None"
      "find_column ''at close'' (columns t') = None"
      by (simp_all add: find_column_None)
    then show ?thesis
      by (simp add: filter_table_columns_def)
  qed
  have month: "get_months_from_first_table t = Inl (MonthColumnNotFound (columns t))"
    if "\<forall>col\<in>set (columns t). header_text col \<noteq> ''month''"
  proof -
    from that have "find_column ''month'' (columns t) = None"
      by (simp add: find_column_None)
    then show ?thesis
      by (simp add: get_months_from_first_table_def)
  qed
  from month neither show ?thesis
    by (simp add: collect_rows_two_cells)
qed

text \<open>A table with the labels ``Price'' and ``Volume''.\<close>

theorem missing_column_handling_witness:
  "get_months_from_first_table
     \<lparr>columns = [Val ''Price'', Val ''Volume''], rows = [[Val ''100'', Val ''7'']]\<rparr> =
     Inl (MonthColumnNotFound [Val ''Price'', Val ''Volume''])
   \<and> filter_table_columns
     \<lparr>columns = [Val ''Price'', Val ''Volume''], rows = [[Val ''100'', Val ''7'']]\<rparr> =
     \<lparr>columns = [Val ''Price'', Val ''Volume''], rows = [[Val ''100'', Val ''7'']]\<rparr>"
  using missing_column_handling
      [of "\<lparr>columns = [Val ''Price'', Val ''Volume''], rows = [[Val ''100'', Val ''7'']]\<rparr>"
          "\<lparr>columns = [Val ''Price'', Val ''Volume''], rows = [[Val ''100'', Val ''7'']]\<rparr>"
          "''Call''"]
  by (simp add: header_text_def py_str_def lower_def lower_char_def strip_def is_space_def)

text \<open>
  With ``Strike'' and ``At Close'' both missing, projection returns the table and the
  stage goes on to write price and volume as strike and open interest: nothing is raised.
\<close>

theorem projection_raises_nothing_counterexample:
  "filter_table_columns
     \<lparr>columns = [Val ''Price'', Val ''Volume''], rows = [[Val ''100'', Val ''7'']]\<rparr> =
     \<lparr>columns = [Val ''Price'', Val ''Volume''], rows = [[Val ''100'', Val ''7'']]\<rparr>
   \<and> collect_rows ''Call'' (rows (filter_table_columns
     \<lparr>columns = [Val ''Price'', Val ''Volume''], rows = [[Val ''100'', Val ''7'']]\<rparr>)) =
     Inr [(''Call'', Val ''100'', Val ''7'')]"
  by (simp add: filter_table_columns_def find_column_def header_text_def py_str_def
        lower_def lower_char_def strip_def is_space_def)

subsection \<open>One of the two headers present\<close>

text \<open>
  Each loop stops at the first label that matches, so at most one label per header is
  kept. With one header present and the other absent, the projector selects by the first
  matching label; when the labels of the table are distinct the result is exactly that
  one column. With neither present the table passes through.
\<close>

lemma find_column_first:
  "find_column name labels = Some c \<longleftrightarrow>
     (\<exists>i<length labels. labels ! i = c \<and> header_text c = name \<and>
        (\<forall>j<i. header_text (labels ! j) \<noteq> name))"
  by (auto simp: find_column_def find_Some_iff)

lemma first_match_projection:
  assumes found: "find_column name (columns t) = Some c"
    and keep: "filter_table_columns t = select_columns t [c]"
  shows "\<exists>i<length (columns t).
           header_text (columns t ! i) = name \<and>
           (\<forall>j<i. header_text (columns t ! j) \<noteq> name) \<and>
           filter_table_columns t = select_columns t [columns t ! i] \<and>
           columns (filter_table_columns t) = filter (\<lambda>l. l = columns t ! i) (columns t) \<and>
           (distinct (columns t) \<longrightarrow> columns (filter_table_columns t) = [columns t ! i])"
proof -
  from found obtain i where i: "i < length (columns t)" "columns t ! i = c"
    "header_text c = name" "\<forall>j<i. header_text (columns t ! j) \<noteq> name"
    unfolding find_column_first by blast
  then have c: "c \<in> set (columns t)"
    using nth_mem by blast
  have cols: "columns (filter_table_columns t) = filter (\<lambda>l. l = c) (columns t)"
    by (simp add: keep select_columns_def select_labels_single)
  with c have "distinct (columns t) \<longrightarrow> columns (filter_table_columns t) = [c]"
    by (simp add: filter_eq_single)
  with i keep cols show ?thesis by blast
qed

lemma filter_table_columns_one_header:
  "((\<exists>col\<in>set (columns t). header_text col = ''strike'') \<and>
    (\<forall>col\<in>set (columns t). header_text col \<noteq> ''at close'') \<longrightarrow>
      (\<exists>i<length (columns t).
         header_text (columns t ! i) = ''strike'' \<and>
         (\<forall>j<i. header_text (columns t ! j) \<noteq> ''strike'') \<and>
         filter_table_columns t = select_columns t [columns t ! i] \<and>
         columns (filter_table_columns t) = filter (\<lambda>l. l = columns t ! i) (columns t) \<and>
         (distinct (columns t) \<longrightarrow> columns (filter_table_columns t) = [columns t ! i])))
   \<and> ((\<forall>col\<in>set (columns t). header_text col \<noteq> ''strike'') \<and>
       (\<exists>col\<in>set (columns t). header_text col = ''at close'') \<longrightarrow>
      (\<exists>i<length (columns t).
         header_text (columns t ! i) = ''at close'' \<and>
         (\<forall>j<i. header_text (columns t ! j) \<noteq> ''at close'') \<and>
         filter_table_columns t = select_columns t [columns t ! i] \<and>
         columns (filter_table_columns t) = filter (\<lambda>l. l = columns t ! i) (columns t) \<and>
         (distinct (columns t) \<longrightarrow> columns (filter_table_columns t) = [columns t ! i])))
   \<and> ((\<forall>col\<in>set (columns t). header_text col \<noteq> ''strike'' \<and> header_text col \<noteq> ''at close'') \<longrightarrow>
      filter_table_columns t = t)"
proof (intro conjI impI)
  assume h: "(\<exists>col\<in>set (columns t). header_text col = ''strike'') \<and>
    (\<forall>col\<in>set (columns t). header_text col \<noteq> ''at close'')"
  then obtain c where s: "find_column ''strike'' (columns t) = Some c"
    using find_column_None [of "''strike''" "columns t"]
    by (cases "find_column ''strike'' (columns t)") auto
  from h have a: "find_column ''at close'' (columns t) = None"
    by (simp add: find_column_None)
  from s a have "filter_table_columns t = select_columns t [c]"
    by (simp add: filter_table_columns_def)
  with s show "\<exists>i<length (columns t).
         header_text (columns t ! i) = ''strike'' \<and>
         (\<forall>j<i. header_text (columns t ! j) \<noteq> ''strike'') \<and>
         filter_table_columns t = select_columns t [columns t ! i] \<and>
         columns (filter_table_columns t) = filter (\<lambda>l. l = columns t ! i) (columns t) \<and>
         (distinct (columns t) \<longrightarrow> columns (filter_table_columns t) = [columns t ! i])"
    by (rule first_match_projection)
next
  assume h: "(\<forall>col\<in>set (columns t). header_text col \<noteq> ''strike'') \<and>
       (\<exists>col\<in>set (columns t). header_text col = ''at close'')"
  then obtain c where a: "find_column ''at close'' (columns t) = Some c"
    using find_column_None [of "''at close''" "columns t"]
    by (cases "find_column ''at close'' (columns t)") auto
  from h have s: "find_column ''strike'' (columns t) = None"
    by (simp add: find_column_None)
  from s a have "filter_table_columns t = select_columns t [c]"
    by (simp add: filter_table_columns_def)
  with a show "\<exists>i<length (columns t).
         header_text (columns t ! i) = ''at close'' \<and>
         (\<forall>j<i. header_text (columns t ! j) \<noteq> ''at close'') \<and>
         filter_table_columns t = select_columns t [columns t ! i] \<and>
         columns (filter_table_columns t) = filter (\<lambda>l. l = columns t ! i) (columns t) \<and>
         (distinct (columns t) \<longrightarrow> columns (filter_table_columns t) = [columns t ! i])"
    by (rule first_match_projection)
next
  assume "\<forall>col\<in>set (columns t). header_text col \<noteq> ''strike'' \<and> header_text col \<noteq> ''at close''"
  then have "find_column ''strike'' (columns t) = None" "find_column ''at close'' (columns t) = None"
    by (simp_all add: find_column_None)
  then show "filter_table_columns t = t"
    by (simp add: filter_table_columns_def)
qed

text \<open>
  Only ``Strike''; only ``At Close''; two different labels that both read ``strike'', of
  which the first is kept.
\<close>

lemma filter_table_columns_examples:
  "filter_table_columns
     \<lparr>columns = [Val ''Strike'', Val ''Volume''], rows = [[Val ''100'', Val ''7'']]\<rparr> =
     \<lparr>columns = [Val ''Strike''], rows = [[Val ''100'']]\<rparr>
   \<and> filter_table_columns
     \<lparr>columns = [Val ''Volume'', Val '' At Close''], rows = [[Val ''7'', Val ''10'']]\<rparr> =
     \<lparr>columns = [Val '' At Close''], rows = [[Val ''10'']]\<rparr>
   \<and> filter_table_columns
     \<lparr>columns = [Val '' STRIKE '', Val ''Strike''], rows = [[Val ''100'', Val ''105'']]\<rparr> =
     \<lparr>columns = [Val '' STRIKE ''], rows = [[Val ''100'']]\<rparr>"
  by (simp add: filter_table_columns_def find_column_def header_text_def py_str_def
        lower_def lower_char_def strip_def is_space_def select_columns_def select_labels_def)

text \<open>
  Claim C10 at a table whose header row names ``Strike'' twice and has no ``At Close''.
  The one label kept selects both columns that carry it, so the result has two columns
  instead of the one matched column, and the loop of \<open>main\<close> writes the second strike
  column as open interest.
\<close>

theorem repeated_strike_label_keeps_both:
  "filter_table_columns
     \<lparr>columns = [Val ''Strike'', Val ''Strike'', Val ''Volume''],
      rows = [[Val ''100'', Val ''105'', Val ''7'']]\<rparr> =
     \<lparr>columns = [Val ''Strike'', Val ''Strike''], rows = [[Val ''100'', Val ''105'']]\<rparr>
   \<and> collect_rows ''Call'' (rows (filter_table_columns
     \<lparr>columns = [Val ''Strike'', Val ''Strike'', Val ''Volume''],
      rows = [[Val ''100'', Val ''105'', Val ''7'']]\<rparr>)) =
     Inr [(''Call'', Val ''100'', Val ''105'')]"
  by (simp add: filter_table_columns_def find_column_def header_text_def py_str_def
        lower_def lower_char_def strip_def is_space_def select_columns_def select_labels_def)

end
